theory Spec2Isabelle
  imports Main
begin

section \<open>Data preparation: the windowing cell of the notebook\<close>

text \<open>
  The notebook cuts the one-dimensional array \<open>source\<close> into \<open>num_samples\<close> rows of
  \<open>sample_size\<close> values:
  \<^verbatim>\<open>
  sample_size = 250
  num_samples = source.shape[0] // sample_size
  input = np.zeros((num_samples, sample_size))
  output = np.zeros((num_samples, sample_size))
  for i in range(num_samples):
    input[i] = source[-(i+1) * sample_size - 2 : -i * sample_size - 2]
    output[i] = source[-(i+1) * sample_size - 1 : -i * sample_size - 1]
  \<close>
  The values are floating point numbers that are only moved around here, so the element
  type is left open (it needs a zero for \<open>np.zeros\<close>). Exceptions are values of
  \<open>error\<close>.
\<close>

datatype error =
    ZeroDivisionError
  | ValueError nat nat
  | RuntimeError
  | UnboundLocalError
  | IndexError

text \<open>
  \<open>ValueError n w\<close> is numpy's "could not broadcast input array from shape (n,) into
  shape (w,)", and also the failure of \<open>reshape\<close> of \<open>n\<close> values into \<open>w\<close>.
\<close>

definition sample_size :: nat where
  "sample_size = 250"

text \<open>A slice bound of Python: a negative bound counts from the end, and both are clamped.\<close>

definition py_index :: "int \<Rightarrow> int \<Rightarrow> nat" where
  "py_index len a = (if a < 0 then nat (max (a + len) 0) else nat (min a len))"

definition py_slice :: "'a list \<Rightarrow> int \<Rightarrow> int \<Rightarrow> 'a list" where
  "py_slice xs a b =
     (let start = py_index (int (length xs)) a;
          stop = py_index (int (length xs)) b
      in take (stop - start) (drop start xs))"

definition np_zeros :: "nat \<Rightarrow> nat \<Rightarrow> ('a::zero) list list" where
  "np_zeros n w = replicate n (replicate w 0)"

text \<open>
  \<open>m[i] = v\<close> for a row of width \<open>w\<close>: numpy broadcasts a one-element array over the
  row, copies an array of the row's width, and raises otherwise.
\<close>

definition assign_row :: "nat \<Rightarrow> 'a list list \<Rightarrow> nat \<Rightarrow> 'a list \<Rightarrow> error + 'a list list" where
  "assign_row w m i v =
     (if length v = w then Inr (m[i := v])
      else if length v = 1 then Inr (m[i := replicate w (hd v)])
      else Inl (ValueError (length v) w))"

text \<open>The body of the loop for one \<open>i\<close>, on the pair of arrays.\<close>

definition window_step ::
  "nat \<Rightarrow> 'a list \<Rightarrow> nat \<Rightarrow> 'a list list \<times> 'a list list \<Rightarrow> error + ('a list list \<times> 'a list list)" where
  "window_step w source i io =
     (case assign_row w (fst io) i
             (py_slice source (- (int i + 1) * int w - 2) (- int i * int w - 2)) of
        Inl e \<Rightarrow> Inl e
      | Inr inp \<Rightarrow>
          (case assign_row w (snd io) i
                  (py_slice source (- (int i + 1) * int w - 1) (- int i * int w - 1)) of
             Inl e \<Rightarrow> Inl e
           | Inr out \<Rightarrow> Inr (inp, out)))"

fun windowing_loop ::
  "nat \<Rightarrow> 'a list \<Rightarrow> nat list \<Rightarrow> 'a list list \<times> 'a list list \<Rightarrow> error + ('a list list \<times> 'a list list)" where
  "windowing_loop w source [] io = Inr io"
| "windowing_loop w source (i # is) io =
     (case window_step w source i io of
        Inl e \<Rightarrow> Inl e
      | Inr io' \<Rightarrow> windowing_loop w source is io')"

definition windowing :: "nat \<Rightarrow> ('a::zero) list \<Rightarrow> error + ('a list list \<times> 'a list list)" where
  "windowing w source =
     (if w = 0 then Inl ZeroDivisionError
      else let num_samples = length source div w
           in windowing_loop w source [0..<num_samples]
                (np_zeros num_samples w, np_zeros num_samples w))"

text \<open>
  The two slices the loop body takes when they lie inside \<open>source\<close>: \<open>w\<close> values from
  position \<open>length source - ((i + 1) * w + 2)\<close>, and the same shifted by one.
\<close>

definition win_in :: "nat \<Rightarrow> 'a list \<Rightarrow> nat \<Rightarrow> 'a list" where
  "win_in w source i = take w (drop (length source - ((i + 1) * w + 2)) source)"

definition win_out :: "nat \<Rightarrow> 'a list \<Rightarrow> nat \<Rightarrow> 'a list" where
  "win_out w source i = take w (drop (length source - ((i + 1) * w + 1)) source)"

section \<open>The model: \<open>LSTMPredictor.forward\<close>\<close>

text \<open>
  A two-dimensional tensor is its shape and its rows. The shape is kept apart from the
  rows because \<open>forward\<close> reads \<open>input.size(1)\<close>, which a tensor without rows still has.
\<close>

record 'a tensor =
  size0 :: nat
  size1 :: nat
  rows :: "'a list list"

definition hidden_layer1_size :: nat where
  "hidden_layer1_size = 75"

definition hidden_layer2_size :: nat where
  "hidden_layer2_size = 75"

definition torch_zeros :: "nat \<Rightarrow> nat \<Rightarrow> ('a::zero) tensor" where
  "torch_zeros b h = \<lparr>size0 = b, size1 = h, rows = replicate b (replicate h 0)\<rparr>"

text \<open>
  \<open>input.chunk(input.size(1), dim=1)\<close>: torch rejects a number of chunks that is not
  positive; otherwise every chunk is one column of \<open>input\<close>, a tensor of shape
  \<open>(size0, 1)\<close>.
\<close>

definition column :: "'a tensor \<Rightarrow> nat \<Rightarrow> 'a tensor" where
  "column t k = \<lparr>size0 = size0 t, size1 = 1, rows = map (\<lambda>r. [r ! k]) (rows t)\<rparr>"

definition chunk_dim1 :: "'a tensor \<Rightarrow> error + 'a tensor list" where
  "chunk_dim1 t =
     (if size1 t = 0 then Inl RuntimeError
      else Inr (map (column t) [0..<size1 t]))"

text \<open>
  \<open>torch.stack(outputs, 1).squeeze(2)\<close>: torch rejects an empty list; the tensors of
  shape \<open>(b, 1)\<close> become the columns of one tensor of shape \<open>(b, length outputs)\<close>.
\<close>

definition stack_squeeze :: "'a tensor list \<Rightarrow> error + 'a tensor" where
  "stack_squeeze outs =
     (case outs of
        [] \<Rightarrow> Inl RuntimeError
      | u # _ \<Rightarrow>
          Inr \<lparr>size0 = size0 u, size1 = length outs,
               rows = map (\<lambda>b. map (\<lambda>v. hd (rows v ! b)) outs) [0..<size0 u]\<rparr>)"

text \<open>
  The three layers are torch's (\<open>nn.LSTMCell\<close>, \<open>nn.LSTMCell\<close>, \<open>nn.Linear\<close>, each with
  its weights); the model has them as functions on tensors.
\<close>

record 'a LSTMPredictor =
  lstm1 :: "'a tensor \<Rightarrow> 'a tensor \<times> 'a tensor \<Rightarrow> 'a tensor \<times> 'a tensor"
  lstm2 :: "'a tensor \<Rightarrow> 'a tensor \<times> 'a tensor \<Rightarrow> 'a tensor \<times> 'a tensor"
  linear :: "'a tensor \<Rightarrow> 'a tensor"

text \<open>
  The local variables of \<open>forward\<close>; \<open>output_v\<close> is the variable \<open>output\<close>, which is
  not bound before the first pass through a loop body.
\<close>

record 'a forward_vars =
  h_t :: "'a tensor"
  c_t :: "'a tensor"
  h_t2 :: "'a tensor"
  c_t2 :: "'a tensor"
  output_v :: "'a tensor option"
  outputs :: "'a tensor list"

definition init_vars :: "nat \<Rightarrow> ('a::zero) forward_vars" where
  "init_vars b =
     \<lparr>h_t = torch_zeros b hidden_layer1_size,
      c_t = torch_zeros b hidden_layer1_size,
      h_t2 = torch_zeros b hidden_layer2_size,
      c_t2 = torch_zeros b hidden_layer2_size,
      output_v = None,
      outputs = []\<rparr>"

text \<open>The four statements that both loops of \<open>forward\<close> run on a tensor \<open>x\<close>.\<close>

definition cell_chain :: "'a LSTMPredictor \<Rightarrow> 'a tensor \<Rightarrow> 'a forward_vars \<Rightarrow> 'a forward_vars" where
  "cell_chain m x v =
     (let hc = lstm1 m x (h_t v, c_t v);
          hc2 = lstm2 m (fst hc) (h_t2 v, c_t2 v);
          out = linear m (fst hc2)
      in \<lparr>h_t = fst hc, c_t = snd hc, h_t2 = fst hc2, c_t2 = snd hc2,
          output_v = Some out, outputs = outputs v @ [out]\<rparr>)"

fun input_loop :: "'a LSTMPredictor \<Rightarrow> 'a tensor list \<Rightarrow> 'a forward_vars \<Rightarrow> 'a forward_vars" where
  "input_loop m [] v = v"
| "input_loop m (input_t # chunks) v = input_loop m chunks (cell_chain m input_t v)"

fun future_loop :: "'a LSTMPredictor \<Rightarrow> nat \<Rightarrow> 'a forward_vars \<Rightarrow> error + 'a forward_vars" where
  "future_loop m 0 v = Inr v"
| "future_loop m (Suc n) v =
     (case output_v v of
        None \<Rightarrow> Inl UnboundLocalError
      | Some out \<Rightarrow> future_loop m n (cell_chain m out v))"

text \<open>
  \<open>forward\<close> up to the last statement, and \<open>forward\<close>. \<open>future\<close> is a natural
  number: \<open>range\<close> of a negative number is empty, as \<open>range(0)\<close> is.
\<close>

definition forward_steps ::
  "('a::zero) LSTMPredictor \<Rightarrow> 'a tensor \<Rightarrow> nat \<Rightarrow> error + 'a forward_vars" where
  "forward_steps m input future =
     (case chunk_dim1 input of
        Inl e \<Rightarrow> Inl e
      | Inr chunks \<Rightarrow> future_loop m future (input_loop m chunks (init_vars (size0 input))))"

definition forward :: "('a::zero) LSTMPredictor \<Rightarrow> 'a tensor \<Rightarrow> nat \<Rightarrow> error + 'a tensor" where
  "forward m input future =
     (case forward_steps m input future of
        Inl e \<Rightarrow> Inl e
      | Inr v \<Rightarrow> stack_squeeze (outputs v))"

text \<open>
  What torch's layers do to the batch dimension: the first result of a cell and the result
  of the linear layer have as many rows as the tensor they are applied to.
\<close>

definition keeps_batch :: "'a LSTMPredictor \<Rightarrow> bool" where
  "keeps_batch m \<longleftrightarrow>
     (\<forall>x s. size0 (fst (lstm1 m x s)) = size0 x) \<and>
     (\<forall>x s. size0 (fst (lstm2 m x s)) = size0 x) \<and>
     (\<forall>x. size0 (linear m x) = size0 x)"

text \<open>
  One pass of the second loop of \<open>forward\<close> when \<open>output\<close> holds the tensor appended
  last, and the condition that it does.
\<close>

definition feed_back :: "'a LSTMPredictor \<Rightarrow> 'a forward_vars \<Rightarrow> 'a forward_vars" where
  "feed_back m v = cell_chain m (last (outputs v)) v"

definition fed :: "'a forward_vars \<Rightarrow> bool" where
  "fed v \<longleftrightarrow> outputs v \<noteq> [] \<and> output_v v = Some (last (outputs v))"

section \<open>Training and prediction\<close>

text \<open>
  The cells after the model work on the objects \<open>pred\<close>, \<open>optimizer\<close> and \<open>losses\<close> and
  on torch's gradient mode:
  \<^verbatim>\<open>
  losses = []
  for epoch in np.arange(1, epochs + 1):
      out = pred(input_t)
      loss = criteria(out, target_t)
      losses += [loss.item()]
      optimizer.zero_grad()
      loss.backward()
      optimizer.step()
  \<close>
  The loss function, the gradients and the optimizer are torch's; they are the fields of
  \<open>torch_lib\<close>, on gradients of type \<open>'g\<close> and an optimizer state of type \<open>'o\<close>. Every
  call is recorded in \<open>trace\<close>, a call of the model with its \<open>future\<close> and the gradient
  mode it ran under. The two \<open>print\<close> statements of the loop body are left out.
\<close>

datatype event = EvForward nat bool | EvLoss | EvZeroGrad | EvBackward | EvStep

record ('a, 'g, 'o) torch_lib =
  criteria :: "'a tensor \<Rightarrow> 'a tensor \<Rightarrow> 'a"
  zero_grad :: "'g \<Rightarrow> 'g"
  backward :: "'a LSTMPredictor \<Rightarrow> 'a tensor \<Rightarrow> 'a tensor \<Rightarrow> 'g \<Rightarrow> 'g"
  step :: "'o \<Rightarrow> 'g \<Rightarrow> 'a LSTMPredictor \<Rightarrow> 'o \<times> 'a LSTMPredictor"

record ('a, 'g, 'o) session =
  pred :: "'a LSTMPredictor"
  grad :: 'g
  optimizer :: 'o
  grad_enabled :: bool
  losses :: "'a list"
  trace :: "event list"

definition epochs :: nat where
  "epochs = 150"

definition days_to_predict :: nat where
  "days_to_predict = 30"

definition call_pred ::
  "('a::zero, 'g, 'o) session \<Rightarrow> 'a tensor \<Rightarrow> nat \<Rightarrow> error + ('a tensor \<times> ('a, 'g, 'o) session)" where
  "call_pred s input future =
     (case forward (pred s) input future of
        Inl e \<Rightarrow> Inl e
      | Inr y \<Rightarrow> Inr (y, s\<lparr>trace := trace s @ [EvForward future (grad_enabled s)]\<rparr>))"

definition train_epoch ::
  "('a::zero, 'g, 'o) torch_lib \<Rightarrow> 'a tensor \<Rightarrow> 'a tensor \<Rightarrow> ('a, 'g, 'o) session \<Rightarrow>
   error + ('a, 'g, 'o) session" where
  "train_epoch lib input_t target_t s =
     (case call_pred s input_t 0 of
        Inl e \<Rightarrow> Inl e
      | Inr (out, s1) \<Rightarrow>
          (let loss = criteria lib out target_t;
               s2 = s1\<lparr>losses := losses s1 @ [loss], trace := trace s1 @ [EvLoss]\<rparr>;
               s3 = s2\<lparr>grad := zero_grad lib (grad s2), trace := trace s2 @ [EvZeroGrad]\<rparr>;
               s4 = s3\<lparr>grad := backward lib (pred s3) input_t target_t (grad s3),
                       trace := trace s3 @ [EvBackward]\<rparr>;
               op = step lib (optimizer s4) (grad s4) (pred s4)
           in Inr (s4\<lparr>optimizer := fst op, pred := snd op, trace := trace s4 @ [EvStep]\<rparr>)))"

fun train_loop ::
  "('a::zero, 'g, 'o) torch_lib \<Rightarrow> 'a tensor \<Rightarrow> 'a tensor \<Rightarrow> nat \<Rightarrow> ('a, 'g, 'o) session \<Rightarrow>
   error + ('a, 'g, 'o) session" where
  "train_loop lib input_t target_t 0 s = Inr s"
| "train_loop lib input_t target_t (Suc n) s =
     (case train_epoch lib input_t target_t s of
        Inl e \<Rightarrow> Inl e
      | Inr s' \<Rightarrow> train_loop lib input_t target_t n s')"

text \<open>
  The prediction cells:
  \<^verbatim>\<open>
  days_to_predict = 30
  final_input = torch.from_numpy(source[-sample_size:].reshape(1, sample_size))
  with torch.no_grad():
      y_t = pred(final_input, future=days_to_predict)
      y = y_t.detach().numpy()
  future_predictions = y[0, - days_to_predict:]
  \<close>
  \<open>source[a:]\<close> is \<open>py_slice_from\<close>, \<open>reshape(1, w)\<close> is \<open>reshape_row\<close>, and
  \<open>y[0, a:]\<close> is \<open>row0_from\<close>. \<open>no_grad\<close> switches the gradient mode off for the
  call and back afterwards.
\<close>

definition py_slice_from :: "'a list \<Rightarrow> int \<Rightarrow> 'a list" where
  "py_slice_from xs a = drop (py_index (int (length xs)) a) xs"

definition reshape_row :: "'a list \<Rightarrow> nat \<Rightarrow> error + 'a tensor" where
  "reshape_row xs w =
     (if length xs = w then Inr \<lparr>size0 = 1, size1 = w, rows = [xs]\<rparr>
      else Inl (ValueError (length xs) w))"

definition row0_from :: "'a tensor \<Rightarrow> int \<Rightarrow> error + 'a list" where
  "row0_from y a =
     (if size0 y = 0 then Inl IndexError else Inr (py_slice_from (rows y ! 0) a))"

definition forecast ::
  "('a::zero, 'g, 'o) session \<Rightarrow> 'a list \<Rightarrow> error + ('a list \<times> ('a, 'g, 'o) session)" where
  "forecast s source =
     (case reshape_row (py_slice_from source (- int sample_size)) sample_size of
        Inl e \<Rightarrow> Inl e
      | Inr final_input \<Rightarrow>
          (case call_pred (s\<lparr>grad_enabled := False\<rparr>) final_input days_to_predict of
             Inl e \<Rightarrow> Inl e
           | Inr (y, s1) \<Rightarrow>
               (case row0_from y (- int days_to_predict) of
                  Inl e \<Rightarrow> Inl e
                | Inr future_predictions \<Rightarrow>
                    Inr (future_predictions, s1\<lparr>grad_enabled := grad_enabled s\<rparr>))))"

text \<open>
  A small model and library on integers, to run the definitions on: each layer adds what
  it is given, row by row.
\<close>

definition add_rows :: "int tensor \<Rightarrow> int tensor \<Rightarrow> int tensor" where
  "add_rows x h =
     \<lparr>size0 = size0 x, size1 = 1,
      rows = map (\<lambda>(r, q). [sum_list r + sum_list q]) (zip (rows x) (rows h))\<rparr>"

definition example_pred :: "int LSTMPredictor" where
  "example_pred =
     \<lparr>lstm1 = (\<lambda>x hc. (add_rows x (fst hc), add_rows x (snd hc))),
      lstm2 = (\<lambda>x hc. (add_rows x (fst hc), add_rows x (snd hc))),
      linear = (\<lambda>x. add_rows x x)\<rparr>"

definition example_lib :: "(int, int, nat) torch_lib" where
  "example_lib =
     \<lparr>criteria = (\<lambda>out target. sum_list (map sum_list (rows out)) - sum_list (map sum_list (rows target))),
      zero_grad = (\<lambda>g. 0),
      backward = (\<lambda>m inp target g. g + 1),
      step = (\<lambda>opt g m. (opt + 1, m))\<rparr>"

definition example_session :: "(int, int, nat) session" where
  "example_session =
     \<lparr>pred = example_pred, grad = 0, optimizer = 0, grad_enabled = True,
      losses = [], trace = []\<rparr>"

section \<open>Properties of the windowing cell\<close>

subsection \<open>Slices with negative bounds, and the loop\<close>

lemma py_index_neg: "0 < a \<Longrightarrow> py_index (int n) (- int a) = n - a"
  unfolding py_index_def by (simp add: max_def) linarith

lemma py_slice_neg:
  "0 < b \<Longrightarrow> b \<le> a \<Longrightarrow>
   py_slice xs (- int a) (- int b) = take ((length xs - b) - (length xs - a)) (drop (length xs - a) xs)"
  by (simp add: py_slice_def Let_def py_index_neg)

lemma lower_bound_in: "- (int i + 1) * int w - 2 = - int ((i + 1) * w + 2)"
  by (simp add: algebra_simps)

lemma upper_bound_in: "- int i * int w - 2 = - int (i * w + 2)"
  by (simp add: algebra_simps)

lemma lower_bound_out: "- (int i + 1) * int w - 1 = - int ((i + 1) * w + 1)"
  by (simp add: algebra_simps)

lemma upper_bound_out: "- int i * int w - 1 = - int (i * w + 1)"
  by (simp add: algebra_simps)

lemma slice_in_eq:
  "py_slice xs (- (int i + 1) * int w - 2) (- int i * int w - 2) =
   take ((length xs - (i * w + 2)) - (length xs - ((i + 1) * w + 2)))
        (drop (length xs - ((i + 1) * w + 2)) xs)"
  unfolding lower_bound_in upper_bound_in by (rule py_slice_neg) simp_all

lemma slice_out_eq:
  "py_slice xs (- (int i + 1) * int w - 1) (- int i * int w - 1) =
   take ((length xs - (i * w + 1)) - (length xs - ((i + 1) * w + 1)))
        (drop (length xs - ((i + 1) * w + 1)) xs)"
  unfolding lower_bound_out upper_bound_out by (rule py_slice_neg) simp_all

lemma slice_in_full:
  assumes "(i + 1) * w + 2 \<le> length xs"
  shows "py_slice xs (- (int i + 1) * int w - 2) (- int i * int w - 2) = win_in w xs i"
proof -
  have "(length xs - (i * w + 2)) - (length xs - ((i + 1) * w + 2)) = w"
    using assms by (simp add: algebra_simps)
  then show ?thesis by (simp only: slice_in_eq win_in_def)
qed

lemma slice_out_full:
  assumes "(i + 1) * w + 1 \<le> length xs"
  shows "py_slice xs (- (int i + 1) * int w - 1) (- int i * int w - 1) = win_out w xs i"
proof -
  have "(length xs - (i * w + 1)) - (length xs - ((i + 1) * w + 1)) = w"
    using assms by (simp add: algebra_simps)
  then show ?thesis by (simp only: slice_out_eq win_out_def)
qed

lemma length_win_in: "(i + 1) * w + 2 \<le> length xs \<Longrightarrow> length (win_in w xs i) = w"
  by (simp add: win_in_def algebra_simps)

lemma length_win_out: "(i + 1) * w + 1 \<le> length xs \<Longrightarrow> length (win_out w xs i) = w"
  by (simp add: win_out_def algebra_simps)

lemma window_step_full:
  assumes "(i + 1) * w + 2 \<le> length xs"
  shows "window_step w xs i (inp, out) = Inr (inp[i := win_in w xs i], out[i := win_out w xs i])"
proof -
  have o: "(i + 1) * w + 1 \<le> length xs" using assms by simp
  show ?thesis
    unfolding window_step_def slice_in_full[OF assms] slice_out_full[OF o]
    by (simp add: assign_row_def length_win_in[OF assms] length_win_out[OF o])
qed

lemma windowing_loop_append:
  "windowing_loop w xs (is @ js) io =
     (case windowing_loop w xs is io of Inl e \<Rightarrow> Inl e | Inr io' \<Rightarrow> windowing_loop w xs js io')"
  by (induction "is" arbitrary: io) (auto split: sum.splits)

lemma filled_update:
  "j < n \<Longrightarrow> (map f [0..<j] @ replicate (n - j) z)[j := f j] = map f [0..<Suc j] @ replicate (n - Suc j) z"
  by (cases "n - j") (simp_all add: list_update_append Suc_diff_Suc)

lemma windowing_loop_prefix:
  "j \<le> n \<Longrightarrow> j * w + 2 \<le> length xs \<Longrightarrow>
   windowing_loop w xs [0..<j] (np_zeros n w, np_zeros n w) =
     Inr (map (win_in w xs) [0..<j] @ replicate (n - j) (replicate w 0),
          map (win_out w xs) [0..<j] @ replicate (n - j) (replicate w 0))"
proof (induction j)
  case 0
  then show ?case by (simp add: np_zeros_def)
next
  case (Suc j)
  have le: "(j + 1) * w + 2 \<le> length xs" using Suc.prems by simp
  have "j * w + 2 \<le> length xs" using Suc.prems by simp
  with Suc have IH: "windowing_loop w xs [0..<j] (np_zeros n w, np_zeros n w) =
     Inr (map (win_in w xs) [0..<j] @ replicate (n - j) (replicate w 0),
          map (win_out w xs) [0..<j] @ replicate (n - j) (replicate w 0))" by simp
  have jn: "j < n" using Suc.prems by simp
  show ?case
    unfolding upt_Suc_append[OF le0] windowing_loop_append IH
    by (simp add: window_step_full[OF le] filled_update[OF jn])
qed

lemma windowing_ok:
  assumes "0 < w" and "2 \<le> length xs mod w"
  shows "windowing w xs =
     Inr (map (win_in w xs) [0..<length xs div w], map (win_out w xs) [0..<length xs div w])"
proof -
  have "length xs div w * w + length xs mod w = length xs" by simp
  then have "length xs div w * w + 2 \<le> length xs" using assms(2) by linarith
  then show ?thesis
    using assms(1) by (simp add: windowing_def Let_def windowing_loop_prefix)
qed

lemma windowing_short:
  assumes "0 < w" and "length xs < w"
  shows "windowing w xs = Inr ([], [])"
  using assms by (simp add: windowing_def np_zeros_def)

lemma window_step_clamped:
  assumes "3 < w" and "length xs < (i + 1) * w + 2" and "(i + 1) * w \<le> length xs"
  shows "window_step w xs i io = Inl (ValueError (length xs - (i * w + 2)) w)"
proof -
  have z: "length xs - ((i + 1) * w + 2) = 0" using assms by simp
  have l: "length xs - (i * w + 2) \<le> length xs" by simp
  have len: "length (py_slice xs (- (int i + 1) * int w - 2) (- int i * int w - 2)) =
      length xs - (i * w + 2)"
    unfolding slice_in_eq z using l by simp
  have "length xs - (i * w + 2) \<noteq> w" using assms by (simp add: algebra_simps) 
  moreover have "length xs - (i * w + 2) \<noteq> 1" using assms by (simp add: algebra_simps) 
  ultimately show ?thesis
    unfolding window_step_def assign_row_def len by simp
qed

lemma windowing_fails:
  assumes "3 < w" and "w \<le> length xs" and "length xs mod w < 2"
  shows "windowing w xs = Inl (ValueError (w + length xs mod w - 2) w)"
proof -
  define n where "n = length xs div w"
  have L: "n * w + length xs mod w = length xs" by (simp add: n_def)
  have n1: "0 < n" using assms by (simp add: n_def div_greater_zero_iff)
  then obtain j where j: "n = Suc j" by (cases n) auto
  have jw: "j * w + 2 \<le> length xs" using L assms(1) j by simp
  have a: "length xs < (j + 1) * w + 2" using L assms(3) j by simp
  have b: "(j + 1) * w \<le> length xs" using L j by simp
  have c: "length xs - (j * w + 2) = w + length xs mod w - 2"
    using L j by (simp add: algebra_simps)
  have ws: "window_step w xs j io = Inl (ValueError (w + length xs mod w - 2) w)" for io
    using window_step_clamped[OF assms(1) a b, of io] unfolding c .
  have "windowing w xs = windowing_loop w xs ([0..<j] @ [j]) (np_zeros n w, np_zeros n w)"
    using assms(1) by (simp add: windowing_def Let_def n_def[symmetric] j)
  also have "\<dots> = Inl (ValueError (w + length xs mod w - 2) w)"
    unfolding windowing_loop_append
    using windowing_loop_prefix[of j n w xs] jw j
    by (simp add: ws)
  finally show ?thesis .
qed

subsection \<open>The returned arrays\<close>

lemma win_in_nth:
  assumes "(i + 1) * w + 2 \<le> length xs" and "k < w"
  shows "win_in w xs i ! k = xs ! (length xs - ((i + 1) * w + 2) + k)"
  using assms by (simp add: win_in_def)

lemma win_out_nth:
  assumes "(i + 1) * w + 2 \<le> length xs" and "k < w"
  shows "win_out w xs i ! k = xs ! (length xs - ((i + 1) * w + 2) + k + 1)"
proof -
  have "length xs - ((i + 1) * w + 1) = length xs - ((i + 1) * w + 2) + 1"
    using assms(1) by simp
  then show ?thesis using assms by (simp add: win_out_def)
qed

lemma windowing_cases:
  assumes "3 < w" and "windowing w xs = Inr (inp, out)"
  shows "(length xs div w = 0 \<or> length xs div w * w + 2 \<le> length xs) \<and>
         inp = map (win_in w xs) [0..<length xs div w] \<and>
         out = map (win_out w xs) [0..<length xs div w]"
proof (cases "length xs < w")
  case True
  then show ?thesis using assms windowing_short[of w xs] by simp
next
  case False
  then have ge: "w \<le> length xs" by simp
  show ?thesis
  proof (cases "length xs mod w < 2")
    case True
    then show ?thesis using windowing_fails[OF assms(1) ge] assms(2) by simp
  next
    case False
    then have r: "2 \<le> length xs mod w" by simp
    have "length xs div w * w + length xs mod w = length xs" by simp
    then have "length xs div w * w + 2 \<le> length xs" using r by linarith
    then show ?thesis using windowing_ok[OF _ r] assms by simp
  qed
qed

lemma concat_rev_win_in:
  "n * w + 2 \<le> length xs \<Longrightarrow>
   concat (rev (map (win_in w xs) [0..<n])) = take (n * w) (drop (length xs - (n * w + 2)) xs)"
proof (induction n)
  case 0
  then show ?case by simp
next
  case (Suc n)
  have d: "length xs - (n * w + 2) = length xs - (Suc n * w + 2) + w"
    using Suc.prems by simp
  have "concat (rev (map (win_in w xs) [0..<Suc n])) =
      win_in w xs n @ take (n * w) (drop (length xs - (n * w + 2)) xs)"
    using Suc by simp
  also have "\<dots> = take (w + n * w) (drop (length xs - (Suc n * w + 2)) xs)"
    unfolding d win_in_def by (simp add: take_add add.commute)
  finally show ?case by simp
qed

lemma concat_rev_win_out:
  "n * w + 1 \<le> length xs \<Longrightarrow>
   concat (rev (map (win_out w xs) [0..<n])) = take (n * w) (drop (length xs - (n * w + 1)) xs)"
proof (induction n)
  case 0
  then show ?case by simp
next
  case (Suc n)
  have d: "length xs - (n * w + 1) = length xs - (Suc n * w + 1) + w"
    using Suc.prems by simp
  have "concat (rev (map (win_out w xs) [0..<Suc n])) =
      win_out w xs n @ take (n * w) (drop (length xs - (n * w + 1)) xs)"
    using Suc by simp
  also have "\<dots> = take (w + n * w) (drop (length xs - (Suc n * w + 1)) xs)"
    unfolding d win_out_def by (simp add: take_add add.commute)
  finally show ?case by simp
qed

subsection \<open>The shift by one\<close>

text \<open>
  Claim C1. Whenever the windowing cell returns its two arrays for \<open>sample_size = 250\<close>,
  every entry \<open>inp ! i ! k\<close> of a window is the value of the series at position
  \<open>length S - ((i + 1) * sample_size + 2) + k\<close>, and \<open>out ! i ! k\<close> is the value of the
  series at the next position.
\<close>

theorem windowing_shift_by_one:
  assumes "windowing sample_size S = Inr (inp, out)"
    and "i < length inp" and "k < sample_size"
  shows "(i + 1) * sample_size + 2 \<le> length S \<and>
         length out = length inp \<and>
         length (inp ! i) = sample_size \<and> length (out ! i) = sample_size \<and>
         inp ! i ! k = S ! (length S - ((i + 1) * sample_size + 2) + k) \<and>
         out ! i ! k = S ! (length S - ((i + 1) * sample_size + 2) + k + 1)"
proof -
  have w: "3 < sample_size" by (simp add: sample_size_def)
  note c = windowing_cases[OF w assms(1)]
  have i: "i < length S div sample_size" using c assms(2) by simp
  then have "Suc i \<le> length S div sample_size" by simp
  then have "Suc i * sample_size \<le> length S div sample_size * sample_size"
    by (rule mult_le_mono1)
  moreover have "length S div sample_size * sample_size + 2 \<le> length S" using c i by auto
  ultimately have le: "(i + 1) * sample_size + 2 \<le> length S" by simp
  then have le1: "(i + 1) * sample_size + 1 \<le> length S" by simp
  show ?thesis
    using c i le win_in_nth[OF le assms(3)] win_out_nth[OF le assms(3)]
      length_win_in[OF le] length_win_out[OF le1]
    by simp
qed

theorem windowing_shift_by_one_witness:
  "windowing sample_size [0..<252] = Inr ([[0..<250]], [[1..<251]]) \<and>
   0 < length [[0..<250]] \<and> 7 < sample_size \<and>
   [[1..<251]] ! 0 ! 7 = [0..<252] ! (length [0..<252] - ((0 + 1) * sample_size + 2) + 7 + 1)"
proof -
  have h: "windowing sample_size [0..<252] = Inr ([[0..<250]], [[1..<251]])"
    using windowing_ok[of 250 "[0..<252]"]
    by (simp add: sample_size_def win_in_def win_out_def)
  show ?thesis
    using h windowing_shift_by_one[OF h, of 0 7] by (simp add: sample_size_def)
qed

subsection \<open>What the windows cover\<close>

text \<open>
  Claim C2, as amended. Whenever the windowing cell returns, it returns
  \<open>length S div sample_size\<close> rows of each array; read from the last row to the first, the
  rows of \<open>input\<close> are one contiguous block of the series that ends two positions
  before its end, and the rows of \<open>output\<close> are the block that ends one position before
  its end. So the values left out are a prefix of the series and its most recent value
  (for \<open>input\<close>, its two most recent values).
\<close>

theorem windowing_blocks:
  assumes "windowing sample_size S = Inr (inp, out)"
  shows "length inp = length S div sample_size \<and>
         length out = length S div sample_size \<and>
         (length S div sample_size = 0 \<or>
          length S div sample_size * sample_size + 2 \<le> length S) \<and>
         concat (rev inp) =
           take (length S div sample_size * sample_size)
             (drop (length S - (length S div sample_size * sample_size + 2)) S) \<and>
         concat (rev out) =
           take (length S div sample_size * sample_size)
             (drop (length S - (length S div sample_size * sample_size + 1)) S)"
proof -
  have w: "3 < sample_size" by (simp add: sample_size_def)
  note c = windowing_cases[OF w assms]
  show ?thesis
  proof (cases "length S div sample_size = 0")
    case True
    then show ?thesis using c by simp
  next
    case False
    then have le: "length S div sample_size * sample_size + 2 \<le> length S" using c by simp
    then have le1: "length S div sample_size * sample_size + 1 \<le> length S" by simp
    show ?thesis
      using c le concat_rev_win_in[OF le] concat_rev_win_out[OF le1] by simp
  qed
qed

theorem windowing_blocks_witness:
  "windowing sample_size [0..<252] = Inr ([[0..<250]], [[1..<251]]) \<and>
   concat (rev [[0..<250]]) =
     take (length [0..<252] div sample_size * sample_size)
       (drop (length [0..<252] - (length [0..<252] div sample_size * sample_size + 2)) [0..<252])"
proof -
  have h: "windowing sample_size [0..<252] = Inr ([[0..<250]], [[1..<251]])"
    using windowing_ok[of 250 "[0..<252]"]
    by (simp add: sample_size_def win_in_def win_out_def)
  show ?thesis
    using h windowing_blocks[OF h] by blast
qed

text \<open>
  Claim C2 as stated fails: on the series \<open>0, 1, ..., 251\<close> the cell returns one window
  pair, and the most recent value \<open>251\<close> is in neither array.
\<close>

theorem windowing_tail_excluded:
  "windowing sample_size [0..<252] = Inr ([[0..<250]], [[1..<251]]) \<and>
   last [0..<252] \<notin> set (concat [[0..<250]]) \<union> set (concat [[1..<251]])"
  using windowing_ok[of 250 "[0..<252]"]
  by (simp add: sample_size_def win_in_def win_out_def)

subsection \<open>The ramp of length 1000\<close>

text \<open>
  Claim C3 expects three window pairs on the ramp \<open>0, 1, ..., 999\<close>. The cell computes
  \<open>num_samples = 4\<close> and raises a \<open>ValueError\<close>: the slice for \<open>i = 3\<close> has 248
  values for a row of 250.
\<close>

theorem windowing_ramp_1000:
  "windowing sample_size [0..999] = Inl (ValueError 248 250) \<and>
   length [0..999] div sample_size = 4"
  using windowing_fails[of 250 "[0..999]"] by (simp add: sample_size_def)

subsection \<open>Short series\<close>

text \<open>
  Claim C4. On a series shorter than \<open>sample_size + 2\<close> the cell returns two arrays with
  no rows (fewer than \<open>sample_size\<close> values), or raises a \<open>ValueError\<close>
  (\<open>sample_size\<close> or \<open>sample_size + 1\<close> values); it builds no window.
\<close>

theorem windowing_degenerate:
  assumes "length S < sample_size + 2"
  shows "windowing sample_size S =
     (if length S < sample_size then Inr ([], [])
      else Inl (ValueError (length S - 2) sample_size))"
proof (cases "length S < sample_size")
  case True
  then show ?thesis using windowing_short[of sample_size S] by (simp add: sample_size_def)
next
  case False
  then have "length S = sample_size \<or> length S = sample_size + 1" using assms by auto
  then have "length S mod sample_size < 2 \<and> sample_size + length S mod sample_size - 2 = length S - 2"
    by (auto simp: sample_size_def)
  then show ?thesis
    using False windowing_fails[of sample_size S] by (simp add: sample_size_def)
qed

theorem windowing_degenerate_witness:
  "length (replicate 251 (0::int)) < sample_size + 2 \<and>
   windowing sample_size (replicate 251 (0::int)) = Inl (ValueError 249 250) \<and>
   length ([]::int list) < sample_size + 2 \<and>
   windowing sample_size ([]::int list) = Inr ([], [])"
  using windowing_degenerate[of "replicate 251 (0::int)"] windowing_degenerate[of "[]::int list"]
  by (simp add: sample_size_def)

subsection \<open>The earliest window\<close>

text \<open>
  Claim C9. For a series of at least \<open>sample_size\<close> values: when
  \<open>length S mod sample_size < 2\<close>, the loop fills every window before the earliest one,
  the step for the earliest window \<open>i = length S div sample_size - 1\<close> raises a
  \<open>ValueError\<close> on a slice of fewer than \<open>sample_size\<close> values, and so does the cell;
  when \<open>2 \<le> length S mod sample_size\<close> the cell returns
  \<open>length S div sample_size\<close> rows of each array.
\<close>

theorem windowing_earliest_window_fails:
  assumes "sample_size \<le> length S"
  shows "(length S mod sample_size < 2 \<longrightarrow>
           (\<exists>io. windowing_loop sample_size S [0..<length S div sample_size - 1]
                   (np_zeros (length S div sample_size) sample_size,
                    np_zeros (length S div sample_size) sample_size) = Inr io) \<and>
           window_step sample_size S (length S div sample_size - 1) io' =
             Inl (ValueError (sample_size + length S mod sample_size - 2) sample_size) \<and>
           sample_size + length S mod sample_size - 2 < sample_size \<and>
           windowing sample_size S =
             Inl (ValueError (sample_size + length S mod sample_size - 2) sample_size)) \<and>
         (2 \<le> length S mod sample_size \<longrightarrow>
           (\<exists>inp out. windowing sample_size S = Inr (inp, out) \<and>
              length inp = length S div sample_size \<and> length out = length S div sample_size))"
proof -
  have w: "3 < sample_size" by (simp add: sample_size_def)
  define n where "n = length S div sample_size"
  have L: "n * sample_size + length S mod sample_size = length S" by (simp add: n_def)
  have "0 < n" using assms w by (simp add: n_def div_greater_zero_iff)
  then obtain j where j: "n = Suc j" by (cases n) auto
  have jw: "j * sample_size + 2 \<le> length S" using L w j by simp
  have b: "(j + 1) * sample_size \<le> length S" using L j by simp
  have pre: "\<exists>io. windowing_loop sample_size S [0..<n - 1]
      (np_zeros n sample_size, np_zeros n sample_size) = Inr io"
    using windowing_loop_prefix[of j n sample_size S] jw j by simp
  have fail: "window_step sample_size S (n - 1) io' =
      Inl (ValueError (sample_size + length S mod sample_size - 2) sample_size)"
    if r: "length S mod sample_size < 2"
  proof -
    have a: "length S < (j + 1) * sample_size + 2" using L r j by simp
    have c: "length S - (j * sample_size + 2) = sample_size + length S mod sample_size - 2"
      using L j by (simp add: algebra_simps)
    show ?thesis using window_step_clamped[OF w a b, of io'] j unfolding c by simp
  qed
  have short: "sample_size + length S mod sample_size - 2 < sample_size"
    if "length S mod sample_size < 2" using that w by simp
  show ?thesis
    unfolding n_def[symmetric]
    using pre fail short windowing_fails[OF w assms] windowing_ok[of sample_size S] w
    by (simp add: n_def)
qed

theorem windowing_earliest_window_fails_witness:
  "sample_size \<le> length (replicate 500 (0::int)) \<and>
   length (replicate 500 (0::int)) mod sample_size < 2 \<and>
   windowing sample_size (replicate 500 (0::int)) = Inl (ValueError 248 250) \<and>
   sample_size \<le> length (replicate 502 (0::int)) \<and>
   2 \<le> length (replicate 502 (0::int)) mod sample_size \<and>
   (\<exists>inp out. windowing sample_size (replicate 502 (0::int)) = Inr (inp, out) \<and>
      length inp = 2 \<and> length out = 2)"
  using windowing_earliest_window_fails[of "replicate 500 (0::int)"]
    windowing_earliest_window_fails[of "replicate 502 (0::int)"]
  by (simp add: sample_size_def)

section \<open>Properties of \<open>forward\<close>\<close>

subsection \<open>The two loops\<close>

lemma outputs_cell_chain:
  "outputs (cell_chain m x v) =
     outputs v @ [linear m (fst (lstm2 m (fst (lstm1 m x (h_t v, c_t v))) (h_t2 v, c_t2 v)))]"
  by (simp add: cell_chain_def Let_def)

lemma fed_cell_chain: "fed (cell_chain m x v)"
  by (simp add: fed_def cell_chain_def Let_def)

lemma input_loop_append:
  "input_loop m (xs @ ys) v = input_loop m ys (input_loop m xs v)"
  by (induction xs arbitrary: v) simp_all

lemma length_outputs_input_loop:
  "length (outputs (input_loop m xs v)) = length (outputs v) + length xs"
  by (induction xs arbitrary: v) (simp_all add: outputs_cell_chain)

lemma outputs_input_loop_prefix:
  "take (length (outputs v)) (outputs (input_loop m xs v)) = outputs v"
proof (induction xs arbitrary: v)
  case Nil
  then show ?case by simp
next
  case (Cons x xs)
  have "take (length (outputs v)) (outputs (input_loop m xs (cell_chain m x v))) =
        take (length (outputs v)) (take (length (outputs (cell_chain m x v)))
          (outputs (input_loop m xs (cell_chain m x v))))"
    by (simp add: outputs_cell_chain min_def)
  also have "\<dots> = take (length (outputs v)) (outputs (cell_chain m x v))"
    by (simp only: Cons.IH)
  also have "\<dots> = outputs v" by (simp add: outputs_cell_chain)
  finally show ?case by simp
qed

lemma fed_input_loop: "xs \<noteq> [] \<or> fed v \<Longrightarrow> fed (input_loop m xs v)"
proof (induction xs arbitrary: v)
  case Nil
  then show ?case by simp
next
  case (Cons x xs)
  then show ?case by (simp add: fed_cell_chain)
qed

lemma future_loop_fed:
  "fed v \<Longrightarrow> future_loop m n v = Inr ((feed_back m ^^ n) v)"
proof (induction n arbitrary: v)
  case 0
  then show ?case by simp
next
  case (Suc n)
  have "future_loop m (Suc n) v = future_loop m n (feed_back m v)"
    using Suc.prems by (simp add: fed_def feed_back_def)
  also have "\<dots> = Inr ((feed_back m ^^ n) (feed_back m v))"
    by (rule Suc.IH) (simp add: feed_back_def fed_cell_chain)
  finally show ?case by (simp add: funpow_swap1)
qed

lemma length_outputs_feed_back:
  "length (outputs ((feed_back m ^^ n) v)) = length (outputs v) + n"
  by (induction n) (simp_all add: feed_back_def outputs_cell_chain)

lemma outputs_feed_back_prefix:
  "take (length (outputs v) + j) (outputs ((feed_back m ^^ (j + k)) v)) =
   outputs ((feed_back m ^^ j) v)"
proof (induction k)
  case 0
  then show ?case by (simp add: length_outputs_feed_back)
next
  case (Suc k)
  have "outputs ((feed_back m ^^ (j + Suc k)) v) =
        outputs ((feed_back m ^^ (j + k)) v) @
          [linear m (fst (lstm2 m (fst (lstm1 m (last (outputs ((feed_back m ^^ (j + k)) v)))
             (h_t ((feed_back m ^^ (j + k)) v), c_t ((feed_back m ^^ (j + k)) v))))
             (h_t2 ((feed_back m ^^ (j + k)) v), c_t2 ((feed_back m ^^ (j + k)) v))))]"
    by (simp add: feed_back_def outputs_cell_chain)
  then show ?case using Suc by (simp add: length_outputs_feed_back)
qed

lemma forward_steps_eq:
  assumes "0 < size1 inp"
  shows "forward_steps m inp n =
     Inr ((feed_back m ^^ n) (input_loop m (map (column inp) [0..<size1 inp]) (init_vars (size0 inp))))"
proof -
  have "map (column inp) [0..<size1 inp] \<noteq> []" using assms by simp
  then have "fed (input_loop m (map (column inp) [0..<size1 inp]) (init_vars (size0 inp)))"
    by (simp add: fed_input_loop)
  then show ?thesis using assms by (simp add: forward_steps_def chunk_dim1_def future_loop_fed)
qed


lemma size1_stack_squeeze:
  "outs \<noteq> [] \<Longrightarrow>
   \<exists>y. stack_squeeze outs = Inr y \<and> size1 y = length outs \<and>
       (\<forall>r\<in>set (rows y). length r = length outs)"
  by (cases outs) (auto simp: stack_squeeze_def)

lemma stack_squeeze_nonempty:
  "outs \<noteq> [] \<Longrightarrow>
   stack_squeeze outs =
     Inr \<lparr>size0 = size0 (hd outs), size1 = length outs,
          rows = map (\<lambda>b. map (\<lambda>u. hd (rows u ! b)) outs) [0..<size0 (hd outs)]\<rparr>"
  by (cases outs) (simp_all add: stack_squeeze_def)

subsection \<open>Length of the prediction and the fed back steps\<close>

text \<open>
  Claim C5. On an input with \<open>N = size1 inp\<close> time steps, \<open>N \<ge> 1\<close>, and any \<open>F\<close>,
  \<open>forward\<close> returns a tensor \<open>y\<close> with \<open>N + F\<close> columns: it has one row for every
  row of the first tensor of \<open>outputs\<close>, every row has \<open>N + F\<close> entries, and the entry
  of row \<open>b\<close> at index \<open>t\<close> is the value that the \<open>t\<close>-th tensor of \<open>outputs\<close> has
  in row \<open>b\<close>. For \<open>j < F\<close>, the prediction at index \<open>N + j\<close> is the linear layer on
  the second cell on the first cell applied to the prediction at index \<open>N + j - 1\<close> and
  to the state \<open>u\<close> that \<open>forward\<close> has after \<open>N + j\<close> steps, whose predictions are
  the first \<open>N + j\<close> ones: what is fed to the cells there is the model's previous output
  and not a column of \<open>inp\<close>.
\<close>

theorem forward_length_and_feedback:
  assumes "0 < size1 inp"
  shows "\<exists>v y. forward_steps m inp F = Inr v \<and> forward m inp F = Inr y \<and>
     stack_squeeze (outputs v) = Inr y \<and>
     length (outputs v) = size1 inp + F \<and>
     size1 y = size1 inp + F \<and> (\<forall>r\<in>set (rows y). length r = size1 inp + F) \<and>
     size0 y = size0 (hd (outputs v)) \<and> length (rows y) = size0 y \<and>
     rows y = map (\<lambda>b. map (\<lambda>u. hd (rows u ! b)) (outputs v)) [0..<size0 (hd (outputs v))] \<and>
     (\<forall>b<size0 y. \<forall>t<size1 inp + F. rows y ! b ! t = hd (rows (outputs v ! t) ! b)) \<and>
     (\<forall>j<F. \<exists>u. forward_steps m inp j = Inr u \<and>
         take (size1 inp + j) (outputs v) = outputs u \<and>
         outputs v ! (size1 inp + j) =
           linear m (fst (lstm2 m (fst (lstm1 m (outputs v ! (size1 inp + j - 1))
             (h_t u, c_t u))) (h_t2 u, c_t2 u))))"
proof -
  define s0 where "s0 = input_loop m (map (column inp) [0..<size1 inp]) (init_vars (size0 inp))"
  define N where "N = size1 inp"
  define st where "st j = (feed_back m ^^ j) s0" for j
  have steps: "forward_steps m inp j = Inr (st j)" for j
    unfolding st_def s0_def by (rule forward_steps_eq[OF assms])
  have len0: "length (outputs s0) = N"
    by (simp add: s0_def N_def length_outputs_input_loop init_vars_def)
  have len: "length (outputs (st j)) = N + j" for j
    by (simp add: st_def length_outputs_feed_back len0)
  have pre: "take (N + j) (outputs (st (j + k))) = outputs (st j)" for j k
    using outputs_feed_back_prefix[where v=s0 and j=j and m=m and k=k] by (simp add: st_def len0)
  have N: "0 < N" using assms by (simp add: N_def)
  have fb: "\<exists>u. forward_steps m inp j = Inr u \<and>
         take (N + j) (outputs (st F)) = outputs u \<and>
         outputs (st F) ! (N + j) =
           linear m (fst (lstm2 m (fst (lstm1 m (outputs (st F) ! (N + j - 1))
             (h_t u, c_t u))) (h_t2 u, c_t2 u)))" if j: "j < F" for j
  proof -
    obtain k where F: "F = j + k" using j by (metis less_imp_add_positive)
    obtain k' where F': "F = Suc j + k'" using j by (metis Suc_leI le_Suc_ex)
    have p: "take (N + j) (outputs (st F)) = outputs (st j)" unfolding F by (rule pre)
    have p': "take (N + Suc j) (outputs (st F)) = outputs (st (Suc j))" unfolding F' by (rule pre)
    have ne: "outputs (st j) \<noteq> []" using len[of j] N by auto
    have "last (outputs (st j)) = outputs (st j) ! (N + j - 1)"
      using ne by (simp add: last_conv_nth len)
    also have "\<dots> = take (N + j) (outputs (st F)) ! (N + j - 1)" by (simp only: p)
    also have "\<dots> = outputs (st F) ! (N + j - 1)" using N by simp
    finally have l: "last (outputs (st j)) = outputs (st F) ! (N + j - 1)" .
    have "outputs (st F) ! (N + j) = take (N + Suc j) (outputs (st F)) ! (N + j)" by simp
    also have "\<dots> = outputs (st (Suc j)) ! (N + j)" by (simp only: p')
    also have "outputs (st (Suc j)) =
        outputs (st j) @ [linear m (fst (lstm2 m (fst (lstm1 m (last (outputs (st j)))
             (h_t (st j), c_t (st j)))) (h_t2 (st j), c_t2 (st j))))]"
      by (simp add: st_def feed_back_def outputs_cell_chain)
    also have "\<dots> ! (N + j) = linear m (fst (lstm2 m (fst (lstm1 m (last (outputs (st j)))
             (h_t (st j), c_t (st j)))) (h_t2 (st j), c_t2 (st j))))"
      using len[of j] by (simp add: nth_append)
    finally show ?thesis using steps[of j] p l by simp
  qed
  define y where "y = \<lparr>size0 = size0 (hd (outputs (st F))), size1 = length (outputs (st F)),
      rows = map (\<lambda>b. map (\<lambda>u. hd (rows u ! b)) (outputs (st F)))
               [0..<size0 (hd (outputs (st F)))]\<rparr>"
  have "outputs (st F) \<noteq> []" using len[of F] N by auto
  then have ss: "stack_squeeze (outputs (st F)) = Inr y"
    unfolding y_def by (rule stack_squeeze_nonempty)
  have fw: "forward m inp F = Inr y" using steps[of F] ss by (simp add: forward_def)
  have y1: "size1 y = N + F" by (simp add: y_def len)
  have y0: "size0 y = size0 (hd (outputs (st F)))" by (simp add: y_def)
  have yr: "rows y = map (\<lambda>b. map (\<lambda>u. hd (rows u ! b)) (outputs (st F)))
               [0..<size0 (hd (outputs (st F)))]" by (simp add: y_def)
  have yl: "length (rows y) = size0 y" by (simp add: y_def)
  have yrow: "\<forall>r\<in>set (rows y). length r = N + F" by (auto simp: y_def len)
  have ynth: "\<forall>b<size0 y. \<forall>t<N + F. rows y ! b ! t = hd (rows (outputs (st F) ! t) ! b)"
    by (simp add: y_def len)
  show ?thesis
    using steps[of F] fw ss len[of F] y1 yrow y0 yl yr ynth fb unfolding N_def by blast
qed

theorem forward_length_and_feedback_witness:
  "0 < size1 \<lparr>size0 = 1, size1 = 2, rows = [[1, 2::int]]\<rparr> \<and>
   (\<exists>v y. forward_steps example_pred \<lparr>size0 = 1, size1 = 2, rows = [[1, 2]]\<rparr> 3 = Inr v \<and>
        forward example_pred \<lparr>size0 = 1, size1 = 2, rows = [[1, 2]]\<rparr> 3 = Inr y \<and>
        size1 y = size1 \<lparr>size0 = 1, size1 = 2, rows = [[1, 2::int]]\<rparr> + 3 \<and>
        rows y = map (\<lambda>b. map (\<lambda>u. hd (rows u ! b)) (outputs v)) [0..<size0 (hd (outputs v))]) \<and>
   forward example_pred \<lparr>size0 = 1, size1 = 2, rows = [[1, 2]]\<rparr> 3 =
     Inr \<lparr>size0 = 1, size1 = 5, rows = [[2, 8, 30, 112, 418]]\<rparr>"
proof -
  have h: "0 < size1 \<lparr>size0 = 1, size1 = 2, rows = [[1, 2::int]]\<rparr>" by simp
  have e: "forward example_pred \<lparr>size0 = 1, size1 = 2, rows = [[1, 2]]\<rparr> 3 =
     Inr \<lparr>size0 = 1, size1 = 5, rows = [[2, 8, 30, 112, 418]]\<rparr>"
    by (simp add: forward_def forward_steps_def chunk_dim1_def column_def init_vars_def
        torch_zeros_def cell_chain_def Let_def stack_squeeze_def example_pred_def add_rows_def
        hidden_layer1_size_def hidden_layer2_size_def eval_nat_numeral)
  from forward_length_and_feedback[OF h, where m=example_pred and F=3] show ?thesis
    using h e by blast
qed

subsection \<open>The first step\<close>

lemma hd_outputs_forward_steps:
  assumes "0 < size1 inp"
  shows "\<exists>v. forward_steps m inp future = Inr v \<and> outputs v \<noteq> [] \<and>
     length (outputs v) = size1 inp + future \<and>
     hd (outputs v) =
       linear m (fst (lstm2 m (fst (lstm1 m (column inp 0)
         (torch_zeros (size0 inp) hidden_layer1_size, torch_zeros (size0 inp) hidden_layer1_size)))
         (torch_zeros (size0 inp) hidden_layer2_size, torch_zeros (size0 inp) hidden_layer2_size)))"
proof -
  define first where "first = cell_chain m (column inp 0) (init_vars (size0 inp))"
  define s0 where "s0 = input_loop m (map (column inp) [0..<size1 inp]) (init_vars (size0 inp))"
  define v where "v = (feed_back m ^^ future) s0"
  have steps: "forward_steps m inp future = Inr v"
    unfolding v_def s0_def by (rule forward_steps_eq[OF assms])
  have len: "length (outputs v) = size1 inp + future"
    by (simp add: v_def s0_def length_outputs_feed_back length_outputs_input_loop init_vars_def)
  have "[0..<size1 inp] = 0 # [1..<size1 inp]" using assms by (simp add: upt_conv_Cons)
  then have s0: "s0 = input_loop m (map (column inp) [1..<size1 inp]) first"
    by (simp add: s0_def first_def)
  have lf: "length (outputs first) = 1"
    by (simp add: first_def outputs_cell_chain init_vars_def)
  have "take 1 (outputs s0) = outputs first"
    using outputs_input_loop_prefix[where v=first and m=m and xs="map (column inp) [1..<size1 inp]"]
    by (simp only: s0 lf)
  moreover have "take (length (outputs s0)) (outputs v) = outputs s0"
    using outputs_feed_back_prefix[where v=s0 and j=0 and m=m and k=future] by (simp add: v_def)
  moreover have "1 \<le> length (outputs s0)"
    by (simp add: s0 length_outputs_input_loop lf)
  ultimately have "take 1 (outputs v) = outputs first"
    by (metis min.absorb1 take_take)
  moreover have "outputs first =
     [linear m (fst (lstm2 m (fst (lstm1 m (column inp 0)
         (torch_zeros (size0 inp) hidden_layer1_size, torch_zeros (size0 inp) hidden_layer1_size)))
         (torch_zeros (size0 inp) hidden_layer2_size, torch_zeros (size0 inp) hidden_layer2_size)))]"
    by (simp add: first_def outputs_cell_chain init_vars_def)
  ultimately have "outputs v \<noteq> [] \<and> hd (outputs v) =
     linear m (fst (lstm2 m (fst (lstm1 m (column inp 0)
         (torch_zeros (size0 inp) hidden_layer1_size, torch_zeros (size0 inp) hidden_layer1_size)))
         (torch_zeros (size0 inp) hidden_layer2_size, torch_zeros (size0 inp) hidden_layer2_size)))"
    by (cases "outputs v") auto
  then show ?thesis using steps len by simp
qed

lemma forward_succeeds:
  assumes "0 < size1 inp"
  shows "\<exists>v. forward_steps m inp future = Inr v \<and> outputs v \<noteq> [] \<and>
     length (outputs v) = size1 inp + future \<and>
     forward m inp future =
       Inr \<lparr>size0 = size0 (hd (outputs v)), size1 = size1 inp + future,
            rows = map (\<lambda>b. map (\<lambda>u. hd (rows u ! b)) (outputs v)) [0..<size0 (hd (outputs v))]\<rparr>"
proof -
  from hd_outputs_forward_steps[OF assms, where m=m and future=future]
  obtain v where v: "forward_steps m inp future = Inr v" "outputs v \<noteq> []"
    "length (outputs v) = size1 inp + future" by blast
  then show ?thesis
    by (cases "outputs v") (auto simp: forward_def stack_squeeze_def)
qed

text \<open>
  Claim C6. In every call of \<open>forward\<close> (any model, any input with a time step, any
  \<open>future\<close>), the first prediction is computed from the first column of the input and
  from hidden and cell states of both layers that are all zero, of shape
  \<open>(size0 inp, 75)\<close>. \<open>forward\<close> has no other argument that a state could come from.
\<close>

theorem forward_zero_state:
  assumes "0 < size1 inp"
  shows "\<exists>v. forward_steps m inp future = Inr v \<and> outputs v \<noteq> [] \<and>
     hd (outputs v) =
       linear m (fst (lstm2 m (fst (lstm1 m (column inp 0)
         (\<lparr>size0 = size0 inp, size1 = hidden_layer1_size,
            rows = replicate (size0 inp) (replicate hidden_layer1_size 0)\<rparr>,
          \<lparr>size0 = size0 inp, size1 = hidden_layer1_size,
            rows = replicate (size0 inp) (replicate hidden_layer1_size 0)\<rparr>)))
         (\<lparr>size0 = size0 inp, size1 = hidden_layer2_size,
            rows = replicate (size0 inp) (replicate hidden_layer2_size 0)\<rparr>,
          \<lparr>size0 = size0 inp, size1 = hidden_layer2_size,
            rows = replicate (size0 inp) (replicate hidden_layer2_size 0)\<rparr>)))"
  using hd_outputs_forward_steps[OF assms, where m=m and future=future]
  unfolding torch_zeros_def by blast

theorem forward_zero_state_witness:
  "0 < size1 \<lparr>size0 = 1, size1 = 2, rows = [[1, 2::int]]\<rparr> \<and>
   (\<exists>v. forward_steps example_pred \<lparr>size0 = 1, size1 = 2, rows = [[1, 2]]\<rparr> 3 = Inr v \<and>
      outputs v \<noteq> [])"
proof -
  have h: "0 < size1 \<lparr>size0 = 1, size1 = 2, rows = [[1, 2::int]]\<rparr>" by simp
  from forward_zero_state[OF h, where m=example_pred and future=3] show ?thesis using h by blast
qed

subsection \<open>An input without time steps\<close>

text \<open>
  Claim C10. On an input with no time step, \<open>forward\<close> raises: the chunking is
  rejected; and with \<open>0 < future\<close> the second loop, started on the variables as they are
  before the first loop, would read the unbound \<open>output\<close>.
\<close>

theorem forward_no_time_steps:
  assumes "size1 inp = 0"
  shows "chunk_dim1 inp = Inl RuntimeError \<and>
         forward m inp future = Inl RuntimeError \<and>
         (0 < future \<longrightarrow>
            future_loop m future (input_loop m [] (init_vars (size0 inp))) =
              Inl UnboundLocalError)"
proof -
  have "future_loop m future (init_vars (size0 inp)) = Inl UnboundLocalError" if "0 < future"
    using that by (cases future) (simp_all add: init_vars_def)
  then show ?thesis
    using assms by (simp add: forward_def forward_steps_def chunk_dim1_def)
qed

theorem forward_no_time_steps_witness:
  "size1 \<lparr>size0 = 1, size1 = 0, rows = [[]::int list]\<rparr> = 0 \<and>
   forward example_pred \<lparr>size0 = 1, size1 = 0, rows = [[]]\<rparr> 30 = Inl RuntimeError \<and>
   (0::nat) < 30 \<and>
   future_loop example_pred 30 (input_loop example_pred [] (init_vars 1)) = Inl UnboundLocalError"
  using forward_no_time_steps[where inp="\<lparr>size0 = 1, size1 = 0, rows = [[]::int list]\<rparr>"
      and m=example_pred and future=30]
  by simp

section \<open>Properties of training and prediction\<close>

subsection \<open>The training loop\<close>

lemma call_pred_ok:
  assumes "0 < size1 inp"
  shows "\<exists>y. forward (pred s) inp f = Inr y \<and>
     call_pred s inp f = Inr (y, s\<lparr>trace := trace s @ [EvForward f (grad_enabled s)]\<rparr>)"
  using forward_succeeds[OF assms, where m="pred s" and future=f]
  by (auto simp: call_pred_def)

lemma train_epoch_ok:
  assumes "0 < size1 input_t"
  shows "\<exists>s'. train_epoch lib input_t target_t s = Inr s' \<and>
     trace s' = trace s @ [EvForward 0 (grad_enabled s), EvLoss, EvZeroGrad, EvBackward, EvStep] \<and>
     grad_enabled s' = grad_enabled s \<and>
     length (losses s') = Suc (length (losses s))"
proof -
  from call_pred_ok[OF assms, where s=s and f=0] obtain y where
    "call_pred s input_t 0 = Inr (y, s\<lparr>trace := trace s @ [EvForward 0 (grad_enabled s)]\<rparr>)"
    by blast
  then show ?thesis by (simp add: train_epoch_def Let_def)
qed

text \<open>
  Claim C7, as amended. On a training input with a time step, training for \<open>n\<close> epochs
  returns, and what it ran is \<open>n\<close> times the sequence: the model with \<open>future = 0\<close>,
  the loss (appended to \<open>losses\<close>, which grows by \<open>n\<close>), the zeroing of the gradients,
  the backward pass, the optimizer step. Nothing ends the loop early.
\<close>

theorem training_epoch_order:
  assumes "0 < size1 input_t"
  shows "\<exists>s'. train_loop lib input_t target_t n s = Inr s' \<and>
     trace s' = trace s @
       concat (replicate n [EvForward 0 (grad_enabled s), EvLoss, EvZeroGrad, EvBackward, EvStep]) \<and>
     length (losses s') = length (losses s) + n"
proof (induction n arbitrary: s)
  case 0
  then show ?case by simp
next
  case (Suc n)
  from train_epoch_ok[OF assms, where lib=lib and target_t=target_t and s=s]
  obtain s1 where s1: "train_epoch lib input_t target_t s = Inr s1"
    "trace s1 = trace s @ [EvForward 0 (grad_enabled s), EvLoss, EvZeroGrad, EvBackward, EvStep]"
    "grad_enabled s1 = grad_enabled s" "length (losses s1) = Suc (length (losses s))"
    by blast
  from Suc.IH[of s1] obtain s' where s': "train_loop lib input_t target_t n s1 = Inr s'"
    "trace s' = trace s1 @
       concat (replicate n [EvForward 0 (grad_enabled s1), EvLoss, EvZeroGrad, EvBackward, EvStep])"
    "length (losses s') = length (losses s1) + n"
    by blast
  show ?case using s1 s' by simp
qed

theorem training_epoch_order_witness:
  "0 < size1 \<lparr>size0 = 1, size1 = 2, rows = [[1, 2::int]]\<rparr> \<and>
   (\<exists>s'. train_loop example_lib \<lparr>size0 = 1, size1 = 2, rows = [[1, 2]]\<rparr>
            \<lparr>size0 = 1, size1 = 2, rows = [[2, 3]]\<rparr> epochs example_session = Inr s' \<and>
        length (losses s') = length (losses example_session) + epochs)"
proof -
  have h: "0 < size1 \<lparr>size0 = 1, size1 = 2, rows = [[1, 2::int]]\<rparr>" by simp
  from training_epoch_order[OF h, where lib=example_lib and n=epochs and s=example_session
      and target_t="\<lparr>size0 = 1, size1 = 2, rows = [[2, 3]]\<rparr>"]
  show ?thesis using h by blast
qed

text \<open>
  Claim C7 as stated puts the zeroing of the gradients first. In one epoch of the loop
  it is the third call, after the model and the loss.
\<close>

theorem training_zero_grad_not_first:
  "map_sum id trace (train_loop example_lib \<lparr>size0 = 1, size1 = 1, rows = [[1]]\<rparr>
      \<lparr>size0 = 1, size1 = 1, rows = [[2]]\<rparr> 1 example_session) =
     Inr [EvForward 0 True, EvLoss, EvZeroGrad, EvBackward, EvStep] \<and>
   map_sum id trace (train_loop example_lib \<lparr>size0 = 1, size1 = 1, rows = [[1]]\<rparr>
      \<lparr>size0 = 1, size1 = 1, rows = [[2]]\<rparr> 1 example_session) \<noteq>
     Inr [EvZeroGrad, EvForward 0 True, EvLoss, EvBackward, EvStep]"
  by (simp add: train_epoch_def call_pred_def forward_def forward_steps_def chunk_dim1_def
      stack_squeeze_def cell_chain_def Let_def example_session_def init_vars_def)

subsection \<open>The forecast\<close>

lemma py_slice_from_tail:
  "0 < n \<Longrightarrow> py_slice_from xs (- int n) = drop (length xs - n) xs"
  by (simp add: py_slice_from_def py_index_neg)

text \<open>
  Claim C8. For a series of at least \<open>sample_size\<close> values and layers that keep the
  batch dimension, the prediction cells call the model once, on the last \<open>sample_size\<close>
  values of the series as one row, with \<open>future = days_to_predict\<close> and with the gradient
  mode off; the forecast is row 0 of the result from index \<open>sample_size\<close> on, that is its
  last \<open>days_to_predict = 30\<close> entries; the model, the gradients, the optimizer and the
  losses are as before, and the gradient mode is restored.
\<close>

theorem forecast_extraction:
  assumes "sample_size \<le> length source" and "keeps_batch (pred s)"
  shows "\<exists>y fp s'.
     forward (pred s)
       \<lparr>size0 = 1, size1 = sample_size, rows = [drop (length source - sample_size) source]\<rparr>
       days_to_predict = Inr y \<and>
     size1 y = sample_size + days_to_predict \<and>
     length (rows y ! 0) = sample_size + days_to_predict \<and>
     forecast s source = Inr (fp, s') \<and>
     fp = drop sample_size (rows y ! 0) \<and> length fp = days_to_predict \<and>
     trace s' = trace s @ [EvForward days_to_predict False] \<and>
     pred s' = pred s \<and> grad s' = grad s \<and> optimizer s' = optimizer s \<and>
     losses s' = losses s \<and> grad_enabled s' = grad_enabled s"
proof -
  define fin where "fin = \<lparr>size0 = 1, size1 = sample_size,
    rows = [drop (length source - sample_size) source]\<rparr>"
  have pos: "0 < size1 fin" by (simp add: fin_def sample_size_def)
  have tail: "py_slice_from source (- int sample_size) = drop (length source - sample_size) source"
    by (rule py_slice_from_tail) (simp add: sample_size_def)
  have resh: "reshape_row (py_slice_from source (- int sample_size)) sample_size = Inr fin"
    unfolding tail using assms(1) by (simp add: reshape_row_def fin_def)
  from hd_outputs_forward_steps[OF pos, where m="pred s" and future=days_to_predict]
  obtain v where v: "forward_steps (pred s) fin days_to_predict = Inr v" "outputs v \<noteq> []"
    "length (outputs v) = size1 fin + days_to_predict"
    "hd (outputs v) =
       linear (pred s) (fst (lstm2 (pred s) (fst (lstm1 (pred s) (column fin 0)
         (torch_zeros (size0 fin) hidden_layer1_size, torch_zeros (size0 fin) hidden_layer1_size)))
         (torch_zeros (size0 fin) hidden_layer2_size, torch_zeros (size0 fin) hidden_layer2_size)))"
    by blast
  have b: "size0 (hd (outputs v)) = 1"
    using assms(2) by (simp add: v(4) keeps_batch_def column_def fin_def)
  define y where "y = \<lparr>size0 = size0 (hd (outputs v)), size1 = size1 fin + days_to_predict,
      rows = map (\<lambda>b. map (\<lambda>u. hd (rows u ! b)) (outputs v)) [0..<size0 (hd (outputs v))]\<rparr>"
  have fw: "forward (pred s) fin days_to_predict = Inr y"
    using v(1,2,3) by (cases "outputs v") (auto simp: forward_def stack_squeeze_def y_def)
  have row: "rows y ! 0 = map (\<lambda>u. hd (rows u ! 0)) (outputs v)"
    by (simp add: y_def b)
  have lrow: "length (rows y ! 0) = sample_size + days_to_predict"
    by (simp add: row v(3) fin_def)
  have cp: "call_pred (s\<lparr>grad_enabled := False\<rparr>) fin days_to_predict =
      Inr (y, s\<lparr>grad_enabled := False, trace := trace s @ [EvForward days_to_predict False]\<rparr>)"
    using fw by (simp add: call_pred_def)
  have sy: "size0 y = 1" by (simp add: y_def b)
  have d: "length (rows y ! 0) - days_to_predict = sample_size" by (simp add: lrow)
  have "py_slice_from (rows y ! 0) (- int days_to_predict) =
      drop (length (rows y ! 0) - days_to_predict) (rows y ! 0)"
    by (rule py_slice_from_tail) (simp add: days_to_predict_def)
  then have r0: "row0_from y (- int days_to_predict) = Inr (drop sample_size (rows y ! 0))"
    unfolding d by (simp add: row0_from_def sy)
  have fc: "forecast s source =
      Inr (drop sample_size (rows y ! 0), s\<lparr>trace := trace s @ [EvForward days_to_predict False]\<rparr>)"
    by (simp add: forecast_def resh cp r0)
  have sz: "size1 y = sample_size + days_to_predict" by (simp add: y_def fin_def)
  show ?thesis
    using fw fc lrow sz unfolding fin_def by simp
qed

lemma keeps_batch_example: "keeps_batch example_pred"
  by (simp add: keeps_batch_def example_pred_def add_rows_def)

theorem forecast_extraction_witness:
  "sample_size \<le> length (replicate 300 (1::int)) \<and> keeps_batch example_pred \<and>
   (\<exists>fp s'. forecast example_session (replicate 300 1) = Inr (fp, s') \<and>
      length fp = days_to_predict \<and> pred s' = pred example_session)"
proof -
  have h: "sample_size \<le> length (replicate 300 (1::int))" by (simp add: sample_size_def)
  have k: "keeps_batch (pred example_session)"
    by (simp add: example_session_def keeps_batch_example)
  from forecast_extraction[OF h k] show ?thesis
    using h k by (auto simp: example_session_def)
qed

end
